theory Spec2Isabelle
  imports Complex_Main
begin

section \<open>Numbers and keyframes\<close>

text \<open>
  Python numbers are modelled exactly: a Python \<^verbatim>\<open>int\<close> is an \<^typ>\<open>int\<close>, a Python
  \<^verbatim>\<open>float\<close> is the real number it denotes (\<^typ>\<open>real\<close>), and float arithmetic is
  taken without rounding error. \<^verbatim>\<open>int(x)\<close> on a float truncates toward zero.
\<close>

definition py_int :: "real \<Rightarrow> int" where
  "py_int x = (if x < 0 then - \<lfloor>- x\<rfloor> else \<lfloor>x\<rfloor>)"

text \<open>
  A keyframe is a dictionary read with \<^verbatim>\<open>k.get("time", 0)\<close> and
  \<^verbatim>\<open>k.get("cropX", 0.5)\<close>; a missing key is \<^const>\<open>None\<close>.
\<close>

record keyframe =
  time :: "real option"
  cropX :: "real option"

definition get_time :: "keyframe \<Rightarrow> real" where
  "get_time k = (case time k of None \<Rightarrow> 0 | Some t \<Rightarrow> t)"

definition get_cropX :: "keyframe \<Rightarrow> real" where
  "get_cropX k = (case cropX k of None \<Rightarrow> 1 / 2 | Some x \<Rightarrow> x)"

text \<open>The exceptions the modelled code can raise.\<close>

datatype exn =
    IndexError
  | KeyError
  | FileNotFoundError
  | StorageError
  | UpstreamError
  | JSONDecodeError

section \<open>Crop window synthesis (\<^verbatim>\<open>extract_clips\<close>, \<^verbatim>\<open>reexport_clip\<close>)\<close>

text \<open>\<^verbatim>\<open>target_width = int(orig_height * 9 / 16)\<close>, \<^verbatim>\<open>max_x = orig_width - target_width\<close>.\<close>

definition target_width :: "int \<Rightarrow> int" where
  "target_width orig_height = py_int (of_int (orig_height * 9) / 16)"

definition max_x :: "int \<Rightarrow> int \<Rightarrow> int" where
  "max_x orig_width orig_height = orig_width - target_width orig_height"

text \<open>
  \<^verbatim>\<open>crop_center = int(cropx * orig_width)\<close>;
  \<^verbatim>\<open>return max(0, min(crop_center - target_width // 2, max_x))\<close>.
\<close>

definition cropx_to_pixels :: "int \<Rightarrow> int \<Rightarrow> real \<Rightarrow> int" where
  "cropx_to_pixels orig_width orig_height cropx =
     (let crop_center = py_int (cropx * of_int orig_width)
      in max 0 (min (crop_center - target_width orig_height div 2)
                    (max_x orig_width orig_height)))"

text \<open>
  The crop expression is the text \<^verbatim>\<open>str(pos)\<close> or
  \<^verbatim>\<open>if(lt(t,{t_next}),{pos_curr},{crop_expr})\<close>; it is kept as a syntax tree, with
  the threshold \<^verbatim>\<open>t_next\<close> as the number it prints.
\<close>

datatype crop_expr =
    Num int
  | IfLt real int crop_expr

text \<open>
  The transform engine's reading of the expression at elapsed time \<open>t\<close>:
  \<^verbatim>\<open>lt(t,c)\<close> is true when \<open>t < c\<close>, and \<^verbatim>\<open>if(c,a,b)\<close> is \<open>a\<close> when \<open>c\<close> is true,
  else \<open>b\<close>.
\<close>

fun eval_expr :: "crop_expr \<Rightarrow> real \<Rightarrow> int" where
  "eval_expr (Num n) t = n"
| "eval_expr (IfLt c p e) t = (if t < c then p else eval_expr e t)"

text \<open>
  The loop \<^verbatim>\<open>for i in range(len(sorted_kf) - 2, -1, -1)\<close>: \<open>wrap_loop W H kf n e\<close> runs
  the iterations \<open>i = n - 1, \<dots>, 0\<close> on the expression \<open>e\<close> built so far.
\<close>

fun wrap_loop :: "int \<Rightarrow> int \<Rightarrow> keyframe list \<Rightarrow> nat \<Rightarrow> crop_expr \<Rightarrow> crop_expr" where
  "wrap_loop W H sorted_kf 0 crop_expr = crop_expr"
| "wrap_loop W H sorted_kf (Suc i) crop_expr =
     (let t_next = get_time (sorted_kf ! Suc i);
          pos_curr = cropx_to_pixels W H (get_cropX (sorted_kf ! i))
      in wrap_loop W H sorted_kf i (IfLt t_next pos_curr crop_expr))"

text \<open>
  From \<^verbatim>\<open>sorted_kf = sorted(keyframes, key=...)\<close> to the finished \<^verbatim>\<open>crop_expr\<close>.
  Python's \<^verbatim>\<open>sorted\<close> is stable, as \<^const>\<open>sort_key\<close> is. On an empty list the \<^verbatim>\<open>else\<close>
  branch reads \<^verbatim>\<open>sorted_kf[-1]\<close> and raises.
\<close>

definition build_crop_expr :: "int \<Rightarrow> int \<Rightarrow> keyframe list \<Rightarrow> exn + crop_expr" where
  "build_crop_expr W H keyframes =
     (let sorted_kf = sort_key get_time keyframes
      in if length sorted_kf = 1
         then Inr (Num (cropx_to_pixels W H (get_cropX (sorted_kf ! 0))))
         else if sorted_kf = [] then Inl IndexError
         else (let last_pos = cropx_to_pixels W H (get_cropX (last sorted_kf))
               in Inr (wrap_loop W H sorted_kf (length sorted_kf - 1) (Num last_pos))))"

section \<open>Keyframe estimation (\<^verbatim>\<open>analyze_clip_keyframes\<close>)\<close>

text \<open>
  What the frame sampler and the language model give for one clip: no frame could be
  read; the call, the JSON decoding or a \<^verbatim>\<open>float(...)\<close> conversion raised (all inside the
  \<^verbatim>\<open>try\<close>); the answer holds no \<^verbatim>\<open>{...}\<close> span; or the decoded
  \<^verbatim>\<open>data.get("keyframes", [])\<close>.
\<close>

datatype estimation =
    NoFrames
  | EstimationRaised
  | NoJsonSpan
  | Estimated "keyframe list"

definition default_keyframe :: keyframe where
  "default_keyframe = \<lparr>time = Some 0, cropX = Some (1 / 2)\<rparr>"

text \<open>The body of the loop \<^verbatim>\<open>for kf in keyframes\<close>: read with defaults, clamp, store.\<close>

definition clean_keyframe :: "real \<Rightarrow> keyframe \<Rightarrow> keyframe" where
  "clean_keyframe duration kf =
     (let t = max 0 (min duration (get_time kf));
          x = max (1 / 10) (min (9 / 10) (get_cropX kf))
      in \<lparr>time = Some t, cropX = Some x\<rparr>)"

definition analyze_clip_keyframes :: "estimation \<Rightarrow> real \<Rightarrow> keyframe list" where
  "analyze_clip_keyframes est duration =
     (case est of
        Estimated keyframes \<Rightarrow>
          (let valid_keyframes = map (clean_keyframe duration) keyframes
           in if valid_keyframes \<noteq> [] then sort_key get_time valid_keyframes
              else [default_keyframe])
      | _ \<Rightarrow> [default_keyframe])"

section \<open>Jobs, local files and the collaborators\<close>

datatype status =
    Queued
  | Downloading
  | Transcribing
  | Analyzing
  | Extracting
  | Completed
  | Failed

text \<open>
  A clip candidate; \<^verbatim>\<open>transcript_excerpt\<close> and \<^verbatim>\<open>explanation\<close> are display text that no
  modelled code reads. An object key of the clip store is \<^verbatim>\<open>clips/{job_id}/clip_{rank}.mp4\<close>.
\<close>

datatype clip_key = ClipKey string int

record clip =
  rank :: int
  start_time :: real
  end_time :: real
  video_url :: "string option"
  s3_key :: "clip_key option"
  keyframes :: "keyframe list option"

text \<open>The entries of \<^verbatim>\<open>extracted\<close> in \<^verbatim>\<open>extract_clips\<close>.\<close>

record extracted =
  ext_rank :: int
  ext_s3_key :: clip_key
  ext_video_url :: string
  ext_keyframes :: "keyframe list"

text \<open>
  A job record; \<^verbatim>\<open>progress\<close> and \<^verbatim>\<open>transcript\<close> are display fields that are written and
  never read. \<^verbatim>\<open>result\<close> holds the list under \<^verbatim>\<open>"clips"\<close>.
\<close>

record job =
  status :: status
  result :: "clip list option"
  error :: "exn option"
  source_s3_key :: "string option"

record segment =
  seg_start :: real
  seg_end :: real
  seg_text :: string
  seg_speaker :: int

text \<open>
  The transcription service: \<^verbatim>\<open>requests.post\<close> raised (a timeout included), the body was
  not JSON, the body has an \<^verbatim>\<open>"error"\<close> key, the body has some other shape that makes the
  reading raise, or it holds utterances.
\<close>

datatype deepgram_outcome =
    PostRaised
  | NotJson
  | ErrorBody
  | BadShape
  | Utterances "segment list"

text \<open>
  Everything outside the process, as the outcome each call has. Per-clip outcomes are
  indexed by the clip's rank. \<open>ffmpeg\<close> gives the exit code and whether the output file
  was written; \<open>s3_upload\<close> gives the presigned URL, or \<^const>\<open>None\<close> when storage raises;
  \<open>selection\<close> is \<^verbatim>\<open>analyze_transcript\<close>, call and lenient parse together.
\<close>

record env =
  s3_download :: bool
  video_size :: "int \<times> int"
  audio_written :: bool
  deepgram :: deepgram_outcome
  selection :: "segment list \<Rightarrow> exn + clip list"
  estimate :: "int \<Rightarrow> estimation"
  ffmpeg :: "int \<Rightarrow> int \<times> bool"
  s3_upload :: "int \<Rightarrow> string option"

text \<open>Local paths: the names \<^verbatim>\<open>tempfile\<close> hands out, fresh for each run.\<close>

datatype path =
    TempVideo
  | AudioFile
  | TempDir
  | ClipFile int
  | TempOutput

record video_filter =
  crop_w :: int
  crop_h :: int
  crop_x :: crop_expr

text \<open>
  The state the code works on: the global \<^verbatim>\<open>jobs\<close>, the local files and directories that
  exist, and two histories kept for the statements below: every value written to the
  job's \<^verbatim>\<open>status\<close>, and every filter handed to the transform engine for a clip.
\<close>

record world =
  jobs :: "string \<rightharpoonup> job"
  files :: "path set"
  status_log :: "status list"
  ffmpeg_log :: "video_filter list"

definition set_status :: "string \<Rightarrow> status \<Rightarrow> world \<Rightarrow> world" where
  "set_status job_id s w =
     w\<lparr>jobs := (case jobs w job_id of
                  None \<Rightarrow> jobs w
                | Some j \<Rightarrow> (jobs w)(job_id \<mapsto> j\<lparr>status := s\<rparr>)),
       status_log := status_log w @ [s]\<rparr>"

text \<open>\<^verbatim>\<open>upload_to_s3\<close>: the local file must exist, and storage must accept it.\<close>

definition upload_to_s3 :: "env \<Rightarrow> int \<Rightarrow> path \<Rightarrow> world \<Rightarrow> exn + string" where
  "upload_to_s3 e rk local_path w =
     (if local_path \<notin> files w then Inl FileNotFoundError
      else case s3_upload e rk of None \<Rightarrow> Inl StorageError | Some url \<Rightarrow> Inr url)"

text \<open>\<^verbatim>\<open>subprocess.run(cmd, ...)\<close> on a clip: the filter is recorded, the output may appear.\<close>

definition run_ffmpeg :: "env \<Rightarrow> int \<Rightarrow> video_filter \<Rightarrow> path \<Rightarrow> world \<Rightarrow> world" where
  "run_ffmpeg e rk vf output_file w =
     w\<lparr>files := (if snd (ffmpeg e rk) then insert output_file (files w) else files w),
       ffmpeg_log := ffmpeg_log w @ [vf]\<rparr>"

section \<open>Transcription (\<^verbatim>\<open>transcribe_video\<close>)\<close>

text \<open>
  \<^verbatim>\<open>extract_audio\<close> and \<^verbatim>\<open>os.path.getsize\<close> run before the \<^verbatim>\<open>try\<close>; everything that
  talks to the service runs inside it, under \<^verbatim>\<open>except Exception\<close>; \<^verbatim>\<open>finally\<close> removes
  the audio file.
\<close>

definition transcribe_video :: "env \<Rightarrow> world \<Rightarrow> (exn + segment list) \<times> world" where
  "transcribe_video e w =
     (let w1 = (if audio_written e then w\<lparr>files := insert AudioFile (files w)\<rparr> else w)
      in if AudioFile \<notin> files w1 then (Inl FileNotFoundError, w1)
         else (let segments = (case deepgram e of
                                 PostRaised \<Rightarrow> []
                               | NotJson \<Rightarrow> []
                               | ErrorBody \<Rightarrow> []
                               | BadShape \<Rightarrow> []
                               | Utterances segs \<Rightarrow> segs)
               in (Inr segments, w1\<lparr>files := files w1 - {AudioFile}\<rparr>)))"

section \<open>Clip extraction (\<^verbatim>\<open>extract_clips\<close>)\<close>

text \<open>One iteration of \<^verbatim>\<open>for clip in clips_data["clips"]\<close>.\<close>

definition extract_one ::
  "env \<Rightarrow> string \<Rightarrow> int \<Rightarrow> int \<Rightarrow> clip \<Rightarrow> world \<Rightarrow> (exn + clip \<times> extracted) \<times> world" where
  "extract_one e job_id W H c w =
     (let start = start_time c;
          duration = end_time c - start;
          rk = rank c;
          output_file = ClipFile rk;
          kfs = analyze_clip_keyframes (estimate e rk) duration;
          c' = c\<lparr>keyframes := Some kfs\<rparr>
      in case build_crop_expr W H kfs of
           Inl x \<Rightarrow> (Inl x, w)
         | Inr crop \<Rightarrow>
             (let vf = \<lparr>crop_w = target_width H, crop_h = H, crop_x = crop\<rparr>;
                  w1 = run_ffmpeg e rk vf output_file w
              in case upload_to_s3 e rk output_file w1 of
                   Inl x \<Rightarrow> (Inl x, w1)
                 | Inr clip_url \<Rightarrow>
                     (Inr (c', \<lparr>ext_rank = rk, ext_s3_key = ClipKey job_id rk,
                                ext_video_url = clip_url, ext_keyframes = kfs\<rparr>),
                      w1\<lparr>files := files w1 - {output_file}\<rparr>)))"

fun extract_loop ::
  "env \<Rightarrow> string \<Rightarrow> int \<Rightarrow> int \<Rightarrow> clip list \<Rightarrow> world \<Rightarrow> (exn + clip list \<times> extracted list) \<times> world"
  where
  "extract_loop e job_id W H [] w = (Inr ([], []), w)"
| "extract_loop e job_id W H (c # cs) w =
     (case extract_one e job_id W H c w of
        (Inl x, w1) \<Rightarrow> (Inl x, w1)
      | (Inr (c', ext), w1) \<Rightarrow>
          (case extract_loop e job_id W H cs w1 of
             (Inl x, w2) \<Rightarrow> (Inl x, w2)
           | (Inr (cs', exts), w2) \<Rightarrow> (Inr (c' # cs', ext # exts), w2)))"

text \<open>\<^verbatim>\<open>tempfile.mkdtemp()\<close> creates the directory; nothing removes it.\<close>

definition extract_clips ::
  "env \<Rightarrow> string \<Rightarrow> clip list \<Rightarrow> world \<Rightarrow> (exn + clip list \<times> extracted list) \<times> world" where
  "extract_clips e job_id cs w =
     (let w1 = w\<lparr>files := insert TempDir (files w)\<rparr>;
          (orig_width, orig_height) = video_size e
      in extract_loop e job_id orig_width orig_height cs w1)"

section \<open>The pipeline run (\<^verbatim>\<open>process_video\<close>, \<^verbatim>\<open>analyze\<close>)\<close>

text \<open>
  The loop \<^verbatim>\<open>for ext in extracted_clips\<close> for one clip: every entry of the same rank
  overwrites the clip's URL and key.
\<close>

definition attach_urls :: "extracted list \<Rightarrow> clip \<Rightarrow> clip" where
  "attach_urls exts c =
     foldl (\<lambda>c' ext. if rank c' = ext_rank ext
                       then c'\<lparr>video_url := Some (ext_video_url ext),
                               s3_key := Some (ext_s3_key ext)\<rparr>
                       else c') c exts"

text \<open>The body of the \<^verbatim>\<open>try\<close>: a raised exception leaves the state as it was reached.\<close>

definition process_body :: "env \<Rightarrow> string \<Rightarrow> string \<Rightarrow> world \<Rightarrow> (exn + unit) \<times> world" where
  "process_body e job_id src w =
     (let w1 = set_status job_id Downloading w
      in if \<not> s3_download e then (Inl StorageError, w1)
         else (let w2 = w1\<lparr>files := insert TempVideo (files w1)\<rparr>;
                   w3 = set_status job_id Transcribing w2
               in case transcribe_video e w3 of
                    (Inl x, w4) \<Rightarrow> (Inl x, w4)
                  | (Inr transcript, w4) \<Rightarrow>
                      (let w5 = set_status job_id Analyzing w4
                       in case selection e transcript of
                            Inl x \<Rightarrow> (Inl x, w5)
                          | Inr cs \<Rightarrow>
                              (let w6 = set_status job_id Extracting w5
                               in case extract_clips e job_id cs w6 of
                                    (Inl x, w7) \<Rightarrow> (Inl x, w7)
                                  | (Inr (cs', exts), w7) \<Rightarrow>
                                      (let cs'' = map (attach_urls exts) cs';
                                           w8 = set_status job_id Completed w7;
                                           w9 = w8\<lparr>jobs := (case jobs w8 job_id of
                                                  None \<Rightarrow> jobs w8
                                                | Some j \<Rightarrow> (jobs w8)(job_id \<mapsto>
                                                    j\<lparr>result := Some cs'',
                                                      source_s3_key := Some src\<rparr>))\<rparr>
                                       in (Inr (), w9))))))"

text \<open>The \<^verbatim>\<open>except Exception\<close> handler.\<close>

definition mark_failed :: "string \<Rightarrow> exn \<Rightarrow> world \<Rightarrow> world" where
  "mark_failed job_id x w =
     (let w1 = set_status job_id Failed w
      in w1\<lparr>jobs := (case jobs w1 job_id of
                       None \<Rightarrow> jobs w1
                     | Some j \<Rightarrow> (jobs w1)(job_id \<mapsto> j\<lparr>error := Some x\<rparr>))\<rparr>)"

text \<open>
  \<^verbatim>\<open>try\<close>, \<^verbatim>\<open>except\<close>, \<^verbatim>\<open>finally\<close>. Without a record for \<open>job_id\<close> the first write raises
  \<^verbatim>\<open>KeyError\<close>, the handler raises it again, and the thread ends with nothing written.
\<close>

definition process_video :: "env \<Rightarrow> string \<Rightarrow> string \<Rightarrow> world \<Rightarrow> world" where
  "process_video e job_id src w =
     (if jobs w job_id = None then w
      else (let (r, w1) = process_body e job_id src w;
                w2 = (case r of Inl x \<Rightarrow> mark_failed job_id x w1 | Inr _ \<Rightarrow> w1)
            in w2\<lparr>files := files w2 - {TempVideo}\<rparr>))"

text \<open>
  \<^verbatim>\<open>POST /analyze\<close>: a missing or empty \<^verbatim>\<open>s3_key\<close> is refused; otherwise the job is stored
  as queued and the run is started on it. \<open>job_id\<close> is the fresh identifier. The run is
  taken to its end here, as its thread does.
\<close>

datatype response =
    Response nat string
  | Uncaught exn

definition analyze :: "env \<Rightarrow> string \<Rightarrow> string option \<Rightarrow> world \<Rightarrow> response \<times> world" where
  "analyze e job_id src w =
     (case src of
        None \<Rightarrow> (Response 400 ''No s3_key provided'', w)
      | Some k \<Rightarrow>
          if k = [] then (Response 400 ''No s3_key provided'', w)
          else (let j = \<lparr>status = Queued, result = None, error = None, source_s3_key = None\<rparr>;
                    w1 = w\<lparr>jobs := (jobs w)(job_id \<mapsto> j), status_log := [Queued]\<rparr>
                in (Response 200 job_id, process_video e job_id k w1)))"

section \<open>Re-export (\<^verbatim>\<open>reexport_clip\<close>)\<close>

record reexport_request =
  req_job_id :: "string option"
  req_clip_rank :: "int option"
  req_keyframes :: "keyframe list option"

text \<open>
  \<^verbatim>\<open>clip["video_url"] = clip_url; clip["keyframes"] = keyframes\<close> writes into the first
  clip of the requested rank, the one the search loop stopped at.
\<close>

fun update_clip :: "int \<Rightarrow> (clip \<Rightarrow> clip) \<Rightarrow> clip list \<Rightarrow> clip list" where
  "update_clip rk f [] = []"
| "update_clip rk f (c # cs) = (if rank c = rk then f c # cs else c # update_clip rk f cs)"

text \<open>The body of the \<^verbatim>\<open>try\<close> of \<^verbatim>\<open>reexport_clip\<close>, after the source was downloaded.\<close>

definition reexport_body ::
  "env \<Rightarrow> string \<Rightarrow> job \<Rightarrow> clip list \<Rightarrow> int \<Rightarrow> keyframe list \<Rightarrow> world \<Rightarrow> response \<times> world" where
  "reexport_body e job_id j cs clip_rank kfs w =
     (let (orig_width, orig_height) = video_size e
      in case build_crop_expr orig_width orig_height kfs of
           Inl x \<Rightarrow> (Uncaught x, w)
         | Inr crop \<Rightarrow>
             (let vf = \<lparr>crop_w = target_width orig_height, crop_h = orig_height, crop_x = crop\<rparr>;
                  w1 = run_ffmpeg e clip_rank vf TempOutput w
              in if fst (ffmpeg e clip_rank) \<noteq> 0 then (Response 500 ''Export failed'', w1)
                 else case upload_to_s3 e clip_rank TempOutput w1 of
                        Inl x \<Rightarrow> (Uncaught x, w1)
                      | Inr clip_url \<Rightarrow>
                          (let cs' = update_clip clip_rank
                                 (\<lambda>c. c\<lparr>video_url := Some clip_url, keyframes := Some kfs\<rparr>) cs;
                               w2 = w1\<lparr>jobs := (jobs w1)(job_id \<mapsto> j\<lparr>result := Some cs'\<rparr>),
                                       files := files w1 - {TempOutput}\<rparr>
                           in (Response 200 clip_url, w2))))"

text \<open>
  \<^verbatim>\<open>POST /reexport\<close>. The download runs before the \<^verbatim>\<open>try\<close>; its \<^verbatim>\<open>finally\<close> removes the
  downloaded source.
\<close>

definition reexport_clip :: "env \<Rightarrow> reexport_request \<Rightarrow> world \<Rightarrow> response \<times> world" where
  "reexport_clip e req w =
     (let kfs = (case req_keyframes req of None \<Rightarrow> [default_keyframe] | Some k \<Rightarrow> k)
      in case req_job_id req of
           None \<Rightarrow> (Response 404 ''Job not found'', w)
         | Some job_id \<Rightarrow>
             (case jobs w job_id of
                None \<Rightarrow> (Response 404 ''Job not found'', w)
              | Some j \<Rightarrow>
                  (case (source_s3_key j, result j) of
                     (Some src, Some cs) \<Rightarrow>
                       if src = [] then (Response 404 ''Job data not found'', w)
                       else (case (req_clip_rank req, find (\<lambda>c. Some (rank c) = req_clip_rank req) cs) of
                               (Some clip_rank, Some c) \<Rightarrow>
                                 if \<not> s3_download e then (Uncaught StorageError, w)
                                 else (let w1 = w\<lparr>files := insert TempVideo (files w)\<rparr>;
                                           (r, w2) = reexport_body e job_id j cs clip_rank kfs w1
                                       in (r, w2\<lparr>files := files w2 - {TempVideo}\<rparr>))
                             | _ \<Rightarrow> (Response 404 ''Clip not found'', w))
                   | _ \<Rightarrow> (Response 404 ''Job data not found'', w))))"

section \<open>Lenient parsing (\<^verbatim>\<open>parse_json_safely\<close>)\<close>

text \<open>
  Text is a list of characters with code points below 256. \<^verbatim>\<open>str.strip()\<close> and the
  pattern class \<^verbatim>\<open>\s\<close> share one notion of white space: the code points 9 to 13, 28 to
  32, 133 and 160.
\<close>

definition isspace :: "char \<Rightarrow> bool" where
  "isspace c = (of_char c \<in> {9, 10, 11, 12, 13, 28, 29, 30, 31, 32, 133, 160 :: nat})"

definition strip :: "string \<Rightarrow> string" where
  "strip s = rev (dropWhile isspace (rev (dropWhile isspace s)))"

text \<open>
  \<open>find_sub sep s\<close> cuts \<open>s\<close> at the first occurrence of \<open>sep\<close> into the text before
  and the text after it; \<^verbatim>\<open>sep in s\<close> holds when there is one. \<^verbatim>\<open>s.split(sep)[0]\<close> is
  the text before (all of \<open>s\<close> without an occurrence), and \<^verbatim>\<open>s.split(sep)[1]\<close> is
  \<^verbatim>\<open>split(sep)[0]\<close> of the text after.
\<close>

definition startswith :: "string \<Rightarrow> string \<Rightarrow> bool" where
  "startswith s sep = (take (length sep) s = sep)"

fun find_sub :: "string \<Rightarrow> string \<Rightarrow> (string \<times> string) option" where
  "find_sub sep [] = (if sep = [] then Some ([], []) else None)"
| "find_sub sep (c # cs) =
     (if startswith (c # cs) sep then Some ([], drop (length sep) (c # cs))
      else map_option (\<lambda>(b, a). (c # b, a)) (find_sub sep cs))"

definition split_0 :: "string \<Rightarrow> string \<Rightarrow> string" where
  "split_0 sep s = (case find_sub sep s of None \<Rightarrow> s | Some (b, a) \<Rightarrow> b)"

text \<open>The fence of three backquotes, bare and tagged \<^verbatim>\<open>json\<close>.\<close>

definition fence :: string where
  "fence = [CHR 0x60, CHR 0x60, CHR 0x60]"

definition json_fence :: string where
  "json_fence = fence @ ''json''"

text \<open>
  The \<^verbatim>\<open>if\<close>/\<^verbatim>\<open>elif\<close> at the head of \<^verbatim>\<open>parse_json_safely\<close>: with a tagged fence in the
  text, \<^verbatim>\<open>content.split(tagged)[1].split(fence)[0]\<close>; else with a bare fence,
  \<^verbatim>\<open>content.split(fence)[1].split(fence)[0]\<close>; else the text as it is.
\<close>

definition strip_fence :: "string \<Rightarrow> string" where
  "strip_fence content =
     (case find_sub json_fence content of
        Some (b, a) \<Rightarrow> split_0 fence (split_0 json_fence a)
      | None \<Rightarrow>
          (case find_sub fence content of
             Some (b, a) \<Rightarrow> split_0 fence (split_0 fence a)
           | None \<Rightarrow> content))"

text \<open>
  \<^verbatim>\<open>re.search(r'\{[\s\S]*\}', content)\<close>: the match starts at the first opening brace and,
  being greedy, ends at the last closing brace after it; without such a pair there is
  no match.
\<close>

definition brace_span :: "string \<Rightarrow> string option" where
  "brace_span s =
     (case dropWhile (\<lambda>c. c \<noteq> CHR ''{'') s of
        [] \<Rightarrow> None
      | c # t \<Rightarrow>
          (case rev (dropWhile (\<lambda>c. c \<noteq> CHR ''}'') (rev t)) of
             [] \<Rightarrow> None
           | d # u \<Rightarrow> Some (c # d # u)))"

text \<open>
  \<^verbatim>\<open>re.sub(r',(\s*[}\]])', r'\1', json_str)\<close>: a comma is dropped when only white space
  lies between it and a closing brace or bracket.
\<close>

definition closes :: "string \<Rightarrow> bool" where
  "closes s = (case dropWhile isspace s of [] \<Rightarrow> False | c # _ \<Rightarrow> c = CHR ''}'' \<or> c = CHR '']'')"

fun strip_trailing_commas :: "string \<Rightarrow> string" where
  "strip_trailing_commas [] = []"
| "strip_trailing_commas (c # cs) =
     (if c = CHR '','' \<and> closes cs then strip_trailing_commas cs
      else c # strip_trailing_commas cs)"

text \<open>
  \<^verbatim>\<open>parse_json_safely\<close>, with \<^verbatim>\<open>json.loads\<close> as the parameter \<open>loads\<close>: \<^const>\<open>None\<close> is its
  \<^verbatim>\<open>JSONDecodeError\<close>. There are three attempts, all on the text left by the fence and
  white space stripping: that text, its brace span, the span without trailing commas.
\<close>

definition parse_json_safely :: "(string \<Rightarrow> 'j option) \<Rightarrow> string \<Rightarrow> exn + 'j" where
  "parse_json_safely loads content0 =
     (let content = strip (strip_fence content0)
      in case loads content of
           Some v \<Rightarrow> Inr v
         | None \<Rightarrow>
             (case brace_span content of
                None \<Rightarrow> Inl JSONDecodeError
              | Some json_str \<Rightarrow>
                  (case loads json_str of
                     Some v \<Rightarrow> Inr v
                   | None \<Rightarrow>
                       (let fixed_json = strip_trailing_commas json_str
                        in case loads fixed_json of
                             Some v \<Rightarrow> Inr v
                           | None \<Rightarrow> Inl JSONDecodeError))))"

section \<open>A JSON reader\<close>

text \<open>
  A decoder to evaluate \<^const>\<open>parse_json_safely\<close> on sample texts. It reads the JSON
  texts made of objects, arrays, strings without escapes, decimal numbers without
  exponent, \<^verbatim>\<open>true\<close>, \<^verbatim>\<open>false\<close> and \<^verbatim>\<open>null\<close> as \<^verbatim>\<open>json.loads\<close> does, and rejects
  every other text. The general statements about \<^const>\<open>parse_json_safely\<close> hold for
  every decoder.
\<close>

datatype json =
    JNull
  | JBool bool
  | JNumber real
  | JString string
  | JArray "json list"
  | JObject "(string \<times> json) list"

datatype token =
    LBrace | RBrace | LBracket | RBracket | Colon | Comma
  | Str string
  | Lit json

definition json_ws :: "char \<Rightarrow> bool" where
  "json_ws c = (c = CHR '' '' \<or> c = CHR 0x09 \<or> c = CHR 0x0A \<or> c = CHR 0x0D)"

definition digit :: "char \<Rightarrow> bool" where
  "digit c = (48 \<le> (of_char c :: nat) \<and> (of_char c :: nat) \<le> 57)"

definition plain :: "char \<Rightarrow> bool" where
  "plain c = (32 \<le> (of_char c :: nat) \<and> c \<noteq> CHR 0x5C \<and> c \<noteq> CHR 0x22)"

definition digits_value :: "string \<Rightarrow> nat" where
  "digits_value ds = foldl (\<lambda>n d. 10 * n + (of_char d - 48)) 0 ds"

definition unsigned :: "string \<Rightarrow> real option" where
  "unsigned s =
     (let ip = takeWhile digit s; r = dropWhile digit s
      in if ip = [] \<or> (length ip > 1 \<and> hd ip = CHR ''0'') then None
         else if r = [] then Some (of_nat (digits_value ip))
         else if hd r = CHR ''.'' \<and> tl r \<noteq> [] \<and> list_all digit (tl r)
         then Some (of_nat (digits_value ip) + of_nat (digits_value (tl r)) / 10 ^ length (tl r))
         else None)"

definition number :: "string \<Rightarrow> real option" where
  "number s =
     (case s of
        [] \<Rightarrow> None
      | c # cs \<Rightarrow> if c = CHR ''-'' then map_option uminus (unsigned cs) else unsigned s)"

definition word_char :: "char \<Rightarrow> bool" where
  "word_char c = (\<not> json_ws c \<and> c \<notin> set ''{}[]:,'' \<and> c \<noteq> CHR 0x22)"

definition word :: "string \<Rightarrow> json option" where
  "word s =
     (if s = ''true'' then Some (JBool True)
      else if s = ''false'' then Some (JBool False)
      else if s = ''null'' then Some JNull
      else map_option JNumber (number s))"

definition punct :: "char \<Rightarrow> token option" where
  "punct c =
     (if c = CHR ''{'' then Some LBrace
      else if c = CHR ''}'' then Some RBrace
      else if c = CHR ''['' then Some LBracket
      else if c = CHR '']'' then Some RBracket
      else if c = CHR '':'' then Some Colon
      else if c = CHR '','' then Some Comma
      else None)"

text \<open>The scanner reads one character at a time, inside a string, inside a word or between.\<close>

datatype lex_state =
    Idle
  | InString string
  | InWord string

fun lex :: "lex_state \<Rightarrow> string \<Rightarrow> token list option" where
  "lex Idle [] = Some []"
| "lex (InString s) [] = None"
| "lex (InWord w) [] = map_option (\<lambda>v. [Lit v]) (word w)"
| "lex Idle (c # cs) =
     (if json_ws c then lex Idle cs
      else case punct c of
             Some t \<Rightarrow> map_option (Cons t) (lex Idle cs)
           | None \<Rightarrow> if c = CHR 0x22 then lex (InString []) cs else lex (InWord [c]) cs)"
| "lex (InString s) (c # cs) =
     (if c = CHR 0x22 then map_option (Cons (Str s)) (lex Idle cs)
      else if plain c then lex (InString (s @ [c])) cs
      else None)"
| "lex (InWord w) (c # cs) =
     (if word_char c then lex (InWord (w @ [c])) cs
      else case word w of
             None \<Rightarrow> None
           | Some v \<Rightarrow>
               if json_ws c then map_option (Cons (Lit v)) (lex Idle cs)
               else case punct c of
                      Some t \<Rightarrow> map_option (\<lambda>r. Lit v # t # r) (lex Idle cs)
                    | None \<Rightarrow> map_option (Cons (Lit v)) (lex (InString []) cs))"

definition tokenize :: "string \<Rightarrow> token list option" where
  "tokenize s = lex Idle s"

text \<open>
  The reader keeps the open arrays and objects on a stack: \<open>json_value\<close> expects a
  value, \<open>json_after\<close> has just read one.
\<close>

datatype frame =
    ArrF "json list"
  | ObjF "(string \<times> json) list" string

fun json_value :: "frame list \<Rightarrow> token list \<Rightarrow> json option"
  and json_after :: "json \<Rightarrow> frame list \<Rightarrow> token list \<Rightarrow> json option" where
  "json_value st [] = None"
| "json_value st (t # ts) =
     (case t of
        Str s \<Rightarrow> json_after (JString s) st ts
      | Lit v \<Rightarrow> json_after v st ts
      | LBracket \<Rightarrow>
          (case ts of
             RBracket # ts' \<Rightarrow> json_after (JArray []) st ts'
           | _ \<Rightarrow> json_value (ArrF [] # st) ts)
      | LBrace \<Rightarrow>
          (case ts of
             RBrace # ts' \<Rightarrow> json_after (JObject []) st ts'
           | Str k # Colon # ts' \<Rightarrow> json_value (ObjF [] k # st) ts'
           | _ \<Rightarrow> None)
      | _ \<Rightarrow> None)"
| "json_after v [] ts = (if ts = [] then Some v else None)"
| "json_after v (f # st) [] = None"
| "json_after v (f # st) (t # ts) =
     (case f of
        ArrF xs \<Rightarrow>
          (case t of
             Comma \<Rightarrow> json_value (ArrF (xs @ [v]) # st) ts
           | RBracket \<Rightarrow> json_after (JArray (xs @ [v])) st ts
           | _ \<Rightarrow> None)
      | ObjF ms k \<Rightarrow>
          (case t of
             Comma \<Rightarrow>
               (case ts of
                  Str k' # Colon # ts' \<Rightarrow> json_value (ObjF (ms @ [(k, v)]) k' # st) ts'
                | _ \<Rightarrow> None)
           | RBrace \<Rightarrow> json_after (JObject (ms @ [(k, v)])) st ts
           | _ \<Rightarrow> None))"

definition json_loads :: "string \<Rightarrow> json option" where
  "json_loads s = (case tokenize s of None \<Rightarrow> None | Some ts \<Rightarrow> json_value [] ts)"

section \<open>The specification's own notions\<close>

text \<open>
  The pixel offset as the specification words it:
  \<^verbatim>\<open>pixel(x) = clamp(round(x * W) - floor(Wc/2), 0, maxX)\<close> with
  \<^verbatim>\<open>Wc = floor(H * 9 / 16)\<close> and \<^verbatim>\<open>maxX = W - Wc\<close>.
\<close>

definition clamp :: "int \<Rightarrow> int \<Rightarrow> int \<Rightarrow> int" where
  "clamp v lo hi = max lo (min v hi)"

definition spec_pixel :: "int \<Rightarrow> int \<Rightarrow> real \<Rightarrow> int" where
  "spec_pixel W H x =
     (let Wc = \<lfloor>(of_int (H * 9) :: real) / 16\<rfloor>;
          maxX = W - Wc
      in clamp (round (x * of_int W) - Wc div 2) 0 maxX)"

text \<open>
  The order of the states \<^verbatim>\<open>queued, downloading, transcribing, analyzing, extracting,
  completed\<close>, the terminal states, and a permitted move: out of a state that is not
  terminal, either into \<^verbatim>\<open>failed\<close> or strictly forward.
\<close>

fun stage :: "status \<Rightarrow> nat" where
  "stage Queued = 0"
| "stage Downloading = 1"
| "stage Transcribing = 2"
| "stage Analyzing = 3"
| "stage Extracting = 4"
| "stage Completed = 5"
| "stage Failed = 6"

definition terminal :: "status \<Rightarrow> bool" where
  "terminal s = (s = Completed \<or> s = Failed)"

definition forward_step :: "status \<Rightarrow> status \<Rightarrow> bool" where
  "forward_step a b = (\<not> terminal a \<and> (b = Failed \<or> stage a < stage b))"

definition run_logs :: "status list set" where
  "run_logs = {[Queued, Downloading, Failed],
     [Queued, Downloading, Transcribing, Failed],
     [Queued, Downloading, Transcribing, Analyzing, Failed],
     [Queued, Downloading, Transcribing, Analyzing, Extracting, Failed],
     [Queued, Downloading, Transcribing, Analyzing, Extracting, Completed]}"

text \<open>A failure of the transcription service: every outcome but a list of utterances.\<close>

definition deepgram_failed :: "deepgram_outcome \<Rightarrow> bool" where
  "deepgram_failed d = (case d of Utterances _ \<Rightarrow> False | _ \<Rightarrow> True)"

text \<open>A keyframe within the ranges of the data model, for a clip of the given duration.\<close>

definition in_range :: "real \<Rightarrow> keyframe \<Rightarrow> bool" where
  "in_range duration k =
     (0 \<le> get_time k \<and> get_time k \<le> duration \<and> 1 / 10 \<le> get_cropX k \<and> get_cropX k \<le> 9 / 10)"

text \<open>The two keyframes of the specification's concrete scenario.\<close>

definition scenario_keyframes :: "keyframe list" where
  "scenario_keyframes =
     [\<lparr>time = Some 0, cropX = Some (1 / 5)\<rparr>, \<lparr>time = Some 5, cropX = Some (4 / 5)\<rparr>]"

section \<open>Sample situations\<close>

text \<open>
  Concrete collaborators, jobs and requests on which the statements below are
  evaluated. In \<open>upload_failure_env\<close> everything works but the clip store; the others
  differ from it in one outcome.
\<close>

definition idle_world :: world where
  "idle_world = \<lparr>jobs = Map.empty, files = {}, status_log = [], ffmpeg_log = []\<rparr>"

definition first_clip :: clip where
  "first_clip = \<lparr>rank = 1, start_time = 10, end_time = 40, video_url = None,
     s3_key = None, keyframes = None\<rparr>"

definition upload_failure_env :: env where
  "upload_failure_env =
     \<lparr>s3_download = True, video_size = (1920, 1080), audio_written = True,
      deepgram = Utterances [], selection = (\<lambda>_. Inr [first_clip]),
      estimate = (\<lambda>_. EstimationRaised), ffmpeg = (\<lambda>_. (0, True)),
      s3_upload = (\<lambda>_. None)\<rparr>"

definition deepgram_down_env :: env where
  "deepgram_down_env = upload_failure_env\<lparr>deepgram := PostRaised\<rparr>"

definition transform_failure_env :: env where
  "transform_failure_env = upload_failure_env\<lparr>ffmpeg := (\<lambda>_. (1, False))\<rparr>"

definition wide_env :: env where
  "wide_env = upload_failure_env\<lparr>video_size := (3840, 1080),
     s3_upload := (\<lambda>_. Some ''https://clips/j1/1'')\<rparr>"

definition done_job :: job where
  "done_job = \<lparr>status = Completed,
     result = Some [first_clip\<lparr>video_url := Some ''https://clips/j1/0'',
                               s3_key := Some (ClipKey ''j1'' 1),
                               keyframes := Some [default_keyframe]\<rparr>],
     error = None, source_s3_key = Some ''v.mp4''\<rparr>"

definition done_world :: world where
  "done_world = idle_world\<lparr>jobs := [''j1'' \<mapsto> done_job]\<rparr>"

definition edge_request :: reexport_request where
  "edge_request = \<lparr>req_job_id = Some ''j1'', req_clip_rank = Some 1,
     req_keyframes = Some [\<lparr>time = Some 0, cropX = Some 0\<rparr>]\<rparr>"

definition bare_request :: reexport_request where
  "bare_request = \<lparr>req_job_id = Some ''j1'', req_clip_rank = Some 1, req_keyframes = None\<rparr>"

text \<open>Sample texts: a word in double quotes, a small JSON object, a fence inside a string.\<close>

definition dq :: "string \<Rightarrow> string" where
  "dq s = CHR 0x22 # s @ [CHR 0x22]"

definition clips_json :: string where
  "clips_json = ''{'' @ dq ''clips'' @ '': []}''"

definition clips_value :: json where
  "clips_value = JObject [(''clips'', JArray [])]"

definition fence_in_string :: string where
  "fence_in_string = ''{'' @ dq ''a'' @ '': '' @ dq fence @ ''}''"

section \<open>Properties of the synthesis\<close>

lemma py_int_nonneg: "0 \<le> x \<Longrightarrow> py_int x = \<lfloor>x\<rfloor>"
  by (simp add: py_int_def)

lemma target_width_floor:
  assumes "0 \<le> H"
  shows "target_width H = \<lfloor>(of_int (H * 9) :: real) / 16\<rfloor>"
proof -
  have "(0::real) \<le> of_int (H * 9) / 16"
    using assms by simp
  then show ?thesis
    unfolding target_width_def by (rule py_int_nonneg)
qed

lemma wrap_loop_past:
  assumes "\<forall>j<n. get_time (kf ! Suc j) \<le> t"
  shows "eval_expr (wrap_loop W H kf n e) t = eval_expr e t"
  using assms
proof (induction n arbitrary: e)
  case 0
  then show ?case by simp
next
  case (Suc n)
  have "get_time (kf ! Suc n) \<le> t"
    using Suc.prems by simp
  moreover have "\<forall>j<n. get_time (kf ! Suc j) \<le> t"
    using Suc.prems by simp
  ultimately show ?case
    using Suc.IH by (simp add: Let_def)
qed

lemma wrap_loop_segment:
  assumes "i < n"
    and "t < get_time (kf ! Suc i)"
    and "\<forall>j<i. get_time (kf ! Suc j) \<le> t"
  shows "eval_expr (wrap_loop W H kf n e) t = cropx_to_pixels W H (get_cropX (kf ! i))"
  using assms
proof (induction n arbitrary: e)
  case 0
  then show ?case by simp
next
  case (Suc n)
  show ?case
  proof (cases "i = n")
    case True
    then show ?thesis
      using Suc.prems wrap_loop_past [of n kf t] by (simp add: Let_def)
  next
    case False
    then have "i < n"
      using Suc.prems by simp
    then show ?thesis
      using Suc.IH Suc.prems by (simp add: Let_def)
  qed
qed






text \<open>
  Claim C4. For a frame 1920 wide and 1080 high the crop width is 607 and the largest
  offset 1313; the keyframes \<open>(0, 0.2)\<close> and \<open>(5, 0.8)\<close> have the offsets 81 and 1233,
  and the expression built from them is 81 at every \<open>t < 5\<close> and 1233 at every other \<open>t\<close>.
\<close>

theorem concrete_scenario:
  "target_width 1080 = 607 \<and> max_x 1920 1080 = 1313 \<and>
   cropx_to_pixels 1920 1080 (1 / 5) = 81 \<and> cropx_to_pixels 1920 1080 (4 / 5) = 1233 \<and>
   build_crop_expr 1920 1080 scenario_keyframes = Inr (IfLt 5 81 (Num 1233)) \<and>
   (\<forall>t. eval_expr (IfLt 5 81 (Num 1233)) t = (if t < 5 then 81 else 1233))"
  by (simp add: target_width_def max_x_def cropx_to_pixels_def py_int_def
      build_crop_expr_def scenario_keyframes_def get_time_def get_cropX_def)

section \<open>Properties of the pipeline run\<close>

lemma transcribe_video_log:
  "transcribe_video e w = (r, w') \<Longrightarrow> status_log w' = status_log w"
  by (auto simp: transcribe_video_def Let_def split: if_splits)

lemma extract_one_log:
  "extract_one e job_id W H c w = (r, w') \<Longrightarrow> status_log w' = status_log w"
  by (auto simp: extract_one_def run_ffmpeg_def Let_def split: sum.splits)

lemma extract_loop_log:
  "extract_loop e job_id W H cs w = (r, w') \<Longrightarrow> status_log w' = status_log w"
proof (induction cs arbitrary: w r w')
  case Nil
  then show ?case by simp
next
  case (Cons c cs)
  obtain r1 w1 where one: "extract_one e job_id W H c w = (r1, w1)"
    by (cases "extract_one e job_id W H c w")
  then have w1: "status_log w1 = status_log w"
    by (rule extract_one_log)
  show ?case
  proof (cases r1)
    case (Inl x)
    then show ?thesis
      using Cons.prems one w1 by simp
  next
    case (Inr p)
    obtain r2 w2 where rest: "extract_loop e job_id W H cs w1 = (r2, w2)"
      by (cases "extract_loop e job_id W H cs w1")
    then have "status_log w2 = status_log w1"
      by (rule Cons.IH)
    then show ?thesis
      using Cons.prems one Inr rest w1 by (auto split: sum.splits prod.splits)
  qed
qed

lemma extract_clips_log:
  "extract_clips e job_id cs w = (r, w') \<Longrightarrow> status_log w' = status_log w"
  by (auto simp: extract_clips_def Let_def split: prod.splits dest: extract_loop_log)

lemma set_status_log [simp]: "status_log (set_status job_id s w) = status_log w @ [s]"
  by (simp add: set_status_def)

lemma mark_failed_log [simp]: "status_log (mark_failed job_id x w) = status_log w @ [Failed]"
  by (simp add: mark_failed_def Let_def)

lemma process_body_log:
  assumes "process_body e job_id src w = (r, w')"
  shows "(r = Inr () \<and>
          status_log w' = status_log w @ [Downloading, Transcribing, Analyzing, Extracting, Completed]) \<or>
         (\<exists>x. r = Inl x \<and>
           (status_log w' = status_log w @ [Downloading] \<or>
            status_log w' = status_log w @ [Downloading, Transcribing] \<or>
            status_log w' = status_log w @ [Downloading, Transcribing, Analyzing] \<or>
            status_log w' = status_log w @ [Downloading, Transcribing, Analyzing, Extracting]))"
  using assms unfolding process_body_def
  by (auto simp: Let_def split: if_splits prod.splits sum.splits
      dest!: transcribe_video_log extract_clips_log)

lemma analyze_log:
  assumes "src \<noteq> []"
  shows "status_log (snd (analyze e job_id (Some src) w)) \<in> run_logs"
proof -
  define w1 where "w1 = w\<lparr>jobs := (jobs w)(job_id \<mapsto>
      \<lparr>status = Queued, result = None, error = None, source_s3_key = None\<rparr>), status_log := [Queued]\<rparr>"
  obtain r w2 where body: "process_body e job_id src w1 = (r, w2)"
    by (cases "process_body e job_id src w1")
  have fin: "snd (analyze e job_id (Some src) w) = process_video e job_id src w1"
    using assms by (simp add: analyze_def w1_def Let_def)
  have "status_log (process_video e job_id src w1) \<in> run_logs"
    using process_body_log [OF body] body
    by (auto simp: process_video_def w1_def run_logs_def Let_def)
  then show ?thesis
    using fin by simp
qed

text \<open>
  Claim C5. For every job that \<^const>\<open>analyze\<close> creates, the values written to its status
  over the run start at \<^const>\<open>Queued\<close> and end in a terminal state, and every value is
  related to every later one by \<^const>\<open>forward_step\<close>: the earlier one is not terminal,
  and the later one is either \<^const>\<open>Failed\<close> or strictly further in the order of the
  stages. So whatever part of the sequence is observed, it never goes back and never
  leaves a terminal state.
\<close>

theorem status_sequence_forward:
  assumes "src \<noteq> []"
  shows "hd (status_log (snd (analyze e job_id (Some src) w))) = Queued \<and>
         sorted_wrt forward_step (status_log (snd (analyze e job_id (Some src) w))) \<and>
         terminal (last (status_log (snd (analyze e job_id (Some src) w))))"
  using analyze_log [OF assms, of e job_id w]
  by (auto simp: run_logs_def forward_step_def terminal_def)

theorem status_sequence_forward_witness:
  "''v.mp4'' \<noteq> [] \<and>
   hd (status_log (snd (analyze upload_failure_env ''j1'' (Some ''v.mp4'') idle_world))) = Queued \<and>
   sorted_wrt forward_step
     (status_log (snd (analyze upload_failure_env ''j1'' (Some ''v.mp4'') idle_world))) \<and>
   terminal (last (status_log (snd (analyze upload_failure_env ''j1'' (Some ''v.mp4'') idle_world))))"
proof -
  have h: "''v.mp4'' \<noteq> []" by simp
  show ?thesis
    using h status_sequence_forward [OF h, of upload_failure_env "''j1''" idle_world] by simp
qed

lemma process_body_after_transcription:
  assumes "s3_download e" and "audio_written e" and "process_body e job_id src w = (r, w')"
  shows "\<exists>l. status_log w' = status_log w @ [Downloading, Transcribing, Analyzing] @ l"
  using assms unfolding process_body_def transcribe_video_def
  by (auto simp: Let_def split: sum.splits prod.splits dest!: extract_clips_log)

text \<open>
  Claim C7. When the source was downloaded and the audio extracted, so that the
  transcription service is called, and the service fails in any way (the request raises,
  the answer is not JSON, is an error body, or has an unusable shape), then
  \<^const>\<open>transcribe_video\<close> returns the empty segment list, and the job's status goes
  from \<^const>\<open>Transcribing\<close> on to \<^const>\<open>Analyzing\<close>.
\<close>

theorem transcription_failure_not_fatal:
  assumes "src \<noteq> []" and "s3_download e" and "audio_written e" and "deepgram_failed (deepgram e)"
  shows "fst (transcribe_video e w') = Inr [] \<and>
         take 4 (status_log (snd (analyze e job_id (Some src) w))) =
           [Queued, Downloading, Transcribing, Analyzing]"
proof -
  define w1 where "w1 = w\<lparr>jobs := (jobs w)(job_id \<mapsto>
      \<lparr>status = Queued, result = None, error = None, source_s3_key = None\<rparr>), status_log := [Queued]\<rparr>"
  obtain r w2 where body: "process_body e job_id src w1 = (r, w2)"
    by (cases "process_body e job_id src w1")
  have fin: "snd (analyze e job_id (Some src) w) = process_video e job_id src w1"
    using assms(1) by (simp add: analyze_def w1_def Let_def)
  obtain l where l: "status_log w2 = [Queued, Downloading, Transcribing, Analyzing] @ l"
    using process_body_after_transcription [OF assms(2,3) body] by (auto simp: w1_def)
  have "take 4 (status_log (process_video e job_id src w1)) =
      [Queued, Downloading, Transcribing, Analyzing]"
    using body l by (cases r) (simp_all add: process_video_def w1_def Let_def)
  moreover have "fst (transcribe_video e w') = Inr []"
    using assms(3,4)
    by (simp add: transcribe_video_def deepgram_failed_def Let_def split: deepgram_outcome.splits)
  ultimately show ?thesis
    using fin by simp
qed

theorem transcription_failure_not_fatal_witness:
  "''v.mp4'' \<noteq> [] \<and> s3_download deepgram_down_env \<and> audio_written deepgram_down_env \<and>
   deepgram_failed (deepgram deepgram_down_env) \<and>
   fst (transcribe_video deepgram_down_env idle_world) = Inr [] \<and>
   take 4 (status_log (snd (analyze deepgram_down_env ''j1'' (Some ''v.mp4'') idle_world))) =
     [Queued, Downloading, Transcribing, Analyzing]"
proof -
  have h1: "''v.mp4'' \<noteq> []" by simp
  have h2: "s3_download deepgram_down_env"
    by (simp add: deepgram_down_env_def upload_failure_env_def)
  have h3: "audio_written deepgram_down_env"
    by (simp add: deepgram_down_env_def upload_failure_env_def)
  have h4: "deepgram_failed (deepgram deepgram_down_env)"
    by (simp add: deepgram_down_env_def deepgram_failed_def)
  show ?thesis
    using h1 h2 h3 h4
      transcription_failure_not_fatal [OF h1 h2 h3 h4, of idle_world "''j1''" idle_world]
    by simp
qed

section \<open>Local files\<close>

lemmas run_defs = analyze_def process_video_def process_body_def set_status_def
  transcribe_video_def extract_clips_def extract_one_def analyze_clip_keyframes_def
  build_crop_expr_def run_ffmpeg_def upload_to_s3_def mark_failed_def default_keyframe_def
  get_time_def get_cropX_def cropx_to_pixels_def target_width_def max_x_def py_int_def

text \<open>
  Claim C8 is not met by the code. In the run where the clip store refuses the upload of
  the first clip, the run ends as \<^const>\<open>Failed\<close> and the clip's output file stays on
  disk, with the temporary directory it lies in: only the downloaded source and the
  audio file are removed on the failure path.
\<close>

theorem clip_file_left_behind:
  "files (snd (analyze upload_failure_env ''j1'' (Some ''v.mp4'') idle_world)) = {TempDir, ClipFile 1} \<and>
   status_log (snd (analyze upload_failure_env ''j1'' (Some ''v.mp4'') idle_world)) =
     [Queued, Downloading, Transcribing, Analyzing, Extracting, Failed]"
  by (auto simp: run_defs upload_failure_env_def idle_world_def first_clip_def Let_def)

section \<open>Properties of the re-export\<close>



text \<open>
  Claim C10. When a re-export calls the transform engine and the engine exits nonzero,
  the answer is HTTP 500 and the job registry is what it was before the request, the
  clip's URL and keyframes with it.
\<close>

theorem failed_transform_leaves_job:
  assumes "reexport_clip e req w = (r, w')"
    and "ffmpeg_log w' \<noteq> ffmpeg_log w"
    and "req_clip_rank req = Some rk"
    and "fst (ffmpeg e rk) \<noteq> 0"
  shows "r = Response 500 ''Export failed'' \<and> jobs w' = jobs w"
  using assms unfolding reexport_clip_def reexport_body_def run_ffmpeg_def
  by (auto simp: Let_def split: option.splits if_splits sum.splits prod.splits)

theorem failed_transform_leaves_job_witness:
  "ffmpeg_log (snd (reexport_clip transform_failure_env bare_request done_world)) \<noteq>
     ffmpeg_log done_world \<and>
   req_clip_rank bare_request = Some 1 \<and>
   fst (ffmpeg transform_failure_env 1) \<noteq> 0 \<and>
   fst (reexport_clip transform_failure_env bare_request done_world) = Response 500 ''Export failed'' \<and>
   jobs (snd (reexport_clip transform_failure_env bare_request done_world)) = jobs done_world"
proof -
  have h1: "reexport_clip transform_failure_env bare_request done_world =
      (fst (reexport_clip transform_failure_env bare_request done_world),
       snd (reexport_clip transform_failure_env bare_request done_world))"
    by simp
  have h2: "ffmpeg_log (snd (reexport_clip transform_failure_env bare_request done_world)) \<noteq>
      ffmpeg_log done_world"
    by (simp add: reexport_clip_def reexport_body_def run_ffmpeg_def build_crop_expr_def
        transform_failure_env_def upload_failure_env_def bare_request_def done_world_def
        done_job_def first_clip_def idle_world_def default_keyframe_def Let_def)
  have h3: "req_clip_rank bare_request = Some 1"
    by (simp add: bare_request_def)
  have h4: "fst (ffmpeg transform_failure_env 1) \<noteq> 0"
    by (simp add: transform_failure_env_def)
  show ?thesis
    using h2 h3 h4 failed_transform_leaves_job [OF h1 h2 h3 h4] by simp
qed

section \<open>Keyframe ranges\<close>

text \<open>What \<^const>\<open>analyze_clip_keyframes\<close> returns is within the ranges.\<close>

lemma clean_keyframe_in_range:
  assumes "0 \<le> duration"
  shows "in_range duration (clean_keyframe duration k)"
  using assms by (simp add: in_range_def clean_keyframe_def get_time_def get_cropX_def Let_def)

lemma analyze_clip_keyframes_in_range:
  assumes "0 \<le> duration"
  shows "list_all (in_range duration) (analyze_clip_keyframes est duration)"
proof (cases est)
  case (Estimated kfs)
  have "list_all (in_range duration) (map (clean_keyframe duration) kfs)"
    using assms by (simp add: list_all_iff clean_keyframe_in_range)
  then have "list_all (in_range duration) (sort_key get_time (map (clean_keyframe duration) kfs))"
    by (simp add: list_all_iff)
  moreover have "in_range duration default_keyframe"
    using assms by (simp add: in_range_def default_keyframe_def get_time_def get_cropX_def)
  ultimately show ?thesis
    using Estimated by (simp add: analyze_clip_keyframes_def Let_def)
next
  case NoFrames
  then show ?thesis
    using assms
    by (simp add: analyze_clip_keyframes_def in_range_def default_keyframe_def get_time_def get_cropX_def)
next
  case EstimationRaised
  then show ?thesis
    using assms
    by (simp add: analyze_clip_keyframes_def in_range_def default_keyframe_def get_time_def get_cropX_def)
next
  case NoJsonSpan
  then show ?thesis
    using assms
    by (simp add: analyze_clip_keyframes_def in_range_def default_keyframe_def get_time_def get_cropX_def)
qed

text \<open>
  Claim C3 is not met by the code on the re-export path. A request with the keyframe
  \<open>(time 0, cropX 0)\<close> on a frame 3840 wide succeeds; the transform engine is called
  with offset 0 and the clip stores the keyframe as sent, with \<open>cropX = 0\<close> outside
  \<open>[0.1, 0.9]\<close>. Cleaned as \<^const>\<open>analyze_clip_keyframes\<close> cleans its keyframes, the
  same keyframe gives offset 81.
\<close>

theorem reexport_keyframes_unclamped:
  "fst (reexport_clip wide_env edge_request done_world) = Response 200 ''https://clips/j1/1'' \<and>
   ffmpeg_log (snd (reexport_clip wide_env edge_request done_world)) =
     [\<lparr>crop_w = 607, crop_h = 1080, crop_x = Num 0\<rparr>] \<and>
   map_option (\<lambda>j. map_option (map keyframes) (result j))
     (jobs (snd (reexport_clip wide_env edge_request done_world)) ''j1'') =
     Some (Some [Some [\<lparr>time = Some 0, cropX = Some 0\<rparr>]]) \<and>
   \<not> in_range 30 \<lparr>time = Some 0, cropX = Some 0\<rparr> \<and>
   build_crop_expr 3840 1080 (map (clean_keyframe 30) [\<lparr>time = Some 0, cropX = Some 0\<rparr>]) =
     Inr (Num 81)"
  by (simp add: reexport_clip_def reexport_body_def run_ffmpeg_def build_crop_expr_def
      upload_to_s3_def wide_env_def upload_failure_env_def edge_request_def done_world_def
      done_job_def first_clip_def idle_world_def default_keyframe_def Let_def
      in_range_def clean_keyframe_def get_time_def get_cropX_def cropx_to_pixels_def
      target_width_def max_x_def py_int_def)

section \<open>Properties of the lenient parser\<close>

lemma startswith_hd:
  assumes "startswith (c # cs) sep" and "sep \<noteq> []"
  shows "hd sep = c"
proof -
  have e: "take (length sep) (c # cs) = sep"
    using assms(1) by (simp only: startswith_def)
  have "hd (take (length sep) (c # cs)) = c"
    using assms(2) by (cases sep) simp_all
  then show ?thesis
    unfolding e .
qed

lemma find_sub_absent:
  assumes "sep \<noteq> []" and "hd sep \<notin> set s"
  shows "find_sub sep s = None"
  using assms
proof (induction s)
  case Nil
  then show ?case by simp
next
  case (Cons c cs)
  have "\<not> startswith (c # cs) sep"
    using Cons.prems startswith_hd [of c cs sep] by auto
  then show ?case
    using Cons by simp
qed

lemma find_sub_skip:
  assumes "sep \<noteq> []" and "hd sep \<notin> set p"
  shows "find_sub sep (p @ r) = map_option (\<lambda>(b, a). (p @ b, a)) (find_sub sep r)"
  using assms
proof (induction p)
  case Nil
  then show ?case by (simp add: option.map_ident)
next
  case (Cons c cs)
  have "\<not> startswith (c # cs @ r) sep"
    using Cons.prems startswith_hd [of c "cs @ r" sep] by auto
  then show ?case
    using Cons by (simp add: option.map_comp comp_def split_def)
qed

lemma find_sub_here: "sep \<noteq> [] \<Longrightarrow> find_sub sep (sep @ r) = Some ([], r)"
  by (cases sep) (simp_all add: startswith_def)

lemma split_0_skip:
  assumes "sep \<noteq> []" and "hd sep \<notin> set p"
  shows "split_0 sep (p @ r) = p @ split_0 sep r"
  using find_sub_skip [OF assms, of r]
  by (simp add: split_0_def split: option.splits prod.splits)

lemma split_0_absent:
  assumes "sep \<noteq> []" and "hd sep \<notin> set s"
  shows "split_0 sep s = s"
  using find_sub_absent [OF assms] by (simp add: split_0_def)

lemma split_0_here: "sep \<noteq> [] \<Longrightarrow> split_0 sep (sep @ r) = []"
  by (simp add: split_0_def find_sub_here)

lemma split_0_Nil [simp]: "split_0 sep [] = []"
  by (simp add: split_0_def)

lemma fence_nonempty [simp]: "fence \<noteq> []" "json_fence \<noteq> []" "hd fence = CHR 0x60" "hd json_fence = CHR 0x60"
  by (simp_all add: fence_def json_fence_def)

lemma strip_fence_plain:
  assumes "CHR 0x60 \<notin> set s"
  shows "strip_fence s = s"
  using assms by (simp add: strip_fence_def find_sub_absent)

lemma after_fence:
  assumes "CHR 0x60 \<notin> set post"
  shows "split_0 fence (split_0 json_fence (fence @ post)) = []"
proof (cases "take 4 post = ''json''")
  case True
  then have "fence @ post = json_fence @ drop 4 post"
    by (metis append.assoc append_take_drop_id json_fence_def)
  then show ?thesis
    by (simp add: split_0_here)
next
  case False
  have "find_sub json_fence post = None"
    using assms by (simp add: find_sub_absent)
  moreover have "take k post \<noteq> CHR 0x60 # r" for k r
    using assms by (cases post; cases k) auto
  ultimately have "find_sub json_fence (fence @ post) = None"
    using False by (simp add: fence_def json_fence_def startswith_def eval_nat_numeral)
  then have "split_0 json_fence (fence @ post) = fence @ post"
    by (simp add: split_0_def)
  then show ?thesis
    by (simp add: split_0_here)
qed

lemma strip_fence_tagged:
  assumes "CHR 0x60 \<notin> set pre" and "CHR 0x60 \<notin> set body" and "CHR 0x60 \<notin> set post"
  shows "strip_fence (pre @ json_fence @ body @ fence @ post) = body"
proof -
  have "find_sub json_fence (pre @ json_fence @ body @ fence @ post) =
      Some (pre, body @ fence @ post)"
    using assms(1) by (simp add: find_sub_skip find_sub_here)
  moreover have "split_0 fence (split_0 json_fence (body @ fence @ post)) = body"
    using assms(2,3) by (simp add: split_0_skip after_fence)
  ultimately show ?thesis
    by (simp add: strip_fence_def)
qed


lemma no_tag_after_fence:
  assumes "CHR 0x60 \<notin> set post" and "take 4 post \<noteq> ''json''"
  shows "find_sub json_fence (fence @ post) = None"
proof -
  have "find_sub json_fence post = None"
    using assms(1) by (simp add: find_sub_absent)
  moreover have "take k post \<noteq> CHR 0x60 # r" for k r
    using assms(1) by (cases post; cases k) auto
  ultimately show ?thesis
    using assms(2) by (simp add: fence_def json_fence_def startswith_def eval_nat_numeral)
qed

lemma take_4_body:
  assumes "CHR 0x60 \<notin> set body" and "take 4 body \<noteq> ''json''"
  shows "take 4 (body @ fence @ post) \<noteq> ''json''"
proof (cases "4 \<le> length body")
  case True
  then show ?thesis
    using assms(2) by simp
next
  case False
  then obtain n where "4 - length body = Suc n"
    by (cases "4 - length body") auto
  then have "take 4 (body @ fence @ post) = take 4 body @ CHR 0x60 # take n (tl fence @ post)"
    by (simp add: fence_def)
  then have "CHR 0x60 \<in> set (take 4 (body @ fence @ post))"
    by simp
  moreover have "CHR 0x60 \<notin> set ''json''"
    by simp
  ultimately show ?thesis
    by metis
qed

lemma strip_fence_untagged:
  assumes "CHR 0x60 \<notin> set pre" and "CHR 0x60 \<notin> set body" and "CHR 0x60 \<notin> set post"
    and "body \<noteq> []" and "take 4 body \<noteq> ''json''" and "take 4 post \<noteq> ''json''"
  shows "strip_fence (pre @ fence @ body @ fence @ post) = body"
proof -
  define R where "R = body @ fence @ post"
  have "find_sub json_fence R = None"
    using assms(2) no_tag_after_fence [OF assms(3,6)] by (simp add: R_def find_sub_skip)
  moreover have "take k R \<noteq> CHR 0x60 # r" for k r
    using assms(2,4) by (cases body; cases k) (auto simp: R_def)
  moreover have "take 4 R \<noteq> ''json''"
    unfolding R_def using assms(2,5) by (rule take_4_body)
  ultimately have "find_sub json_fence (fence @ R) = None"
    by (simp add: fence_def json_fence_def startswith_def eval_nat_numeral)
  then have "find_sub json_fence (pre @ fence @ R) = None"
    using assms(1) by (simp add: find_sub_skip)
  moreover have "find_sub fence (pre @ fence @ R) = Some (pre, R)"
    using assms(1) by (simp add: find_sub_skip find_sub_here)
  moreover have "split_0 fence (split_0 fence R) = body"
    using assms(2) by (simp add: R_def split_0_skip split_0_here split_0_absent)
  ultimately show ?thesis
    by (simp add: strip_fence_def R_def)
qed

lemma strip_between:
  assumes "j \<noteq> []" and "\<not> isspace (hd j)" and "\<not> isspace (last j)"
  shows "strip (pre @ j @ post) = dropWhile isspace pre @ j @ rev (dropWhile isspace (rev post))"
proof -
  have front: "dropWhile isspace (pre @ j @ post) = dropWhile isspace pre @ j @ post"
    using assms(1,2) by (cases j) (auto simp: dropWhile_append)
  have "dropWhile isspace (rev j @ r) = rev j @ r" for r
    using assms(1,3) by (cases "rev j") (auto simp: last_rev hd_rev)
  then have rear: "dropWhile isspace (rev post @ rev j @ r) = dropWhile isspace (rev post) @ rev j @ r" for r
    by (auto simp: dropWhile_append)
  show ?thesis
    by (simp add: strip_def front rear)
qed

lemma strip_plain:
  assumes "j \<noteq> []" and "\<not> isspace (hd j)" and "\<not> isspace (last j)"
  shows "strip j = j"
  using strip_between [OF assms, of "[]" "[]"] by simp

lemma brace_span_between:
  assumes "CHR ''{'' \<notin> set p" and "CHR ''}'' \<notin> set q"
  shows "brace_span (p @ CHR ''{'' # m @ CHR ''}'' # q) = Some (CHR ''{'' # m @ [CHR ''}''])"
proof -
  have "dropWhile (\<lambda>c. c \<noteq> CHR ''{'') (p @ CHR ''{'' # m @ CHR ''}'' # q) = CHR ''{'' # m @ CHR ''}'' # q"
    using assms(1) by (simp add: dropWhile_append)
  moreover have "rev (dropWhile (\<lambda>c. c \<noteq> CHR ''}'') (rev (m @ CHR ''}'' # q))) = m @ [CHR ''}'']"
    using assms(2) by (simp add: dropWhile_append)
  moreover have "m @ [CHR ''}''] \<noteq> []"
    by simp
  ultimately show ?thesis
    by (simp add: brace_span_def split: list.splits)
qed

lemma brace_span_none:
  assumes "CHR ''{'' \<notin> set s \<or> CHR ''}'' \<notin> set s"
  shows "brace_span s = None"
proof (cases "dropWhile (\<lambda>c. c \<noteq> CHR ''{'') s")
  case Nil
  show ?thesis
    unfolding brace_span_def Nil by simp
next
  case (Cons c t)
  then have "c \<in> set s" "set t \<subseteq> set s"
    using set_dropWhileD [of _ "\<lambda>c. c \<noteq> CHR ''{''" s] by auto
  moreover have "c = CHR ''{''"
    using Cons hd_dropWhile [of "\<lambda>c. c \<noteq> CHR ''{''" s] by auto
  ultimately have "CHR ''}'' \<notin> set t"
    using assms by auto
  then have none: "dropWhile (\<lambda>c. c \<noteq> CHR ''}'') (rev t) = []"
    by auto
  have "brace_span s =
      (case rev (dropWhile (\<lambda>c. c \<noteq> CHR ''}'') (rev t)) of
         [] \<Rightarrow> None
       | d # u \<Rightarrow> Some (c # d # u))"
    by (simp only: brace_span_def Cons list.case)
  also have "\<dots> = None"
    by (simp only: none rev.simps list.case)
  finally show ?thesis .
qed

lemma find_sub_parts:
  "find_sub sep s = Some (b, a) \<Longrightarrow> set b \<subseteq> set s \<and> set a \<subseteq> set s"
proof (induction s arbitrary: b a)
  case Nil
  show ?case
  proof (cases "sep = []")
    case True
    then show ?thesis using Nil by simp
  next
    case False
    then show ?thesis using Nil by simp
  qed
next
  case (Cons c cs)
  show ?case
  proof (cases "startswith (c # cs) sep")
    case True
    then have "find_sub sep (c # cs) = Some ([], drop (length sep) (c # cs))"
      by simp
    then have "b = []" and "a = drop (length sep) (c # cs)"
      using Cons.prems by simp_all
    then show ?thesis
      using set_drop_subset [of "length sep" "c # cs"] by simp
  next
    case False
    then have step: "find_sub sep (c # cs) = map_option (\<lambda>(b, a). (c # b, a)) (find_sub sep cs)"
      by simp
    show ?thesis
    proof (cases "find_sub sep cs")
      case None
      then show ?thesis
        using Cons.prems step by simp
    next
      case (Some p)
      obtain b' a' where p: "p = (b', a')" by (cases p)
      then have "b = c # b'" and "a = a'"
        using Cons.prems step Some by simp_all
      moreover have "set b' \<subseteq> set cs \<and> set a' \<subseteq> set cs"
        using Cons.IH [of b' a'] Some p by simp
      ultimately show ?thesis
        by auto
    qed
  qed
qed

lemma set_split_0: "set (split_0 sep s) \<subseteq> set s"
proof (cases "find_sub sep s")
  case None
  then show ?thesis by (simp add: split_0_def)
next
  case (Some p)
  obtain b a where p: "p = (b, a)" by (cases p)
  have "set b \<subseteq> set s"
    using find_sub_parts [of sep s b a] Some p by simp
  then show ?thesis
    using Some p by (simp add: split_0_def)
qed

lemma set_after_fence:
  assumes "find_sub z s = Some (b, a)"
  shows "set (split_0 x (split_0 y a)) \<subseteq> set s"
proof -
  have "set (split_0 x (split_0 y a)) \<subseteq> set (split_0 y a)"
    by (rule set_split_0)
  also have "\<dots> \<subseteq> set a"
    by (rule set_split_0)
  also have "\<dots> \<subseteq> set s"
    using find_sub_parts [OF assms] by simp
  finally show ?thesis .
qed

lemma set_strip_fence: "set (strip_fence s) \<subseteq> set s"
proof (cases "find_sub json_fence s")
  case (Some p)
  obtain b a where "p = (b, a)" by (cases p)
  then show ?thesis
    using Some set_after_fence [of json_fence s b a fence json_fence]
    by (simp add: strip_fence_def)
next
  case None
  show ?thesis
  proof (cases "find_sub fence s")
    case (Some p)
    obtain b a where "p = (b, a)" by (cases p)
    then show ?thesis
      using None Some set_after_fence [of fence s b a fence fence]
      by (simp add: strip_fence_def)
  next
    case inner: None
    then show ?thesis
      using None by (simp add: strip_fence_def)
  qed
qed

lemma set_strip: "set (strip s) \<subseteq> set s"
proof
  fix x
  assume "x \<in> set (strip s)"
  then have "x \<in> set (dropWhile isspace (rev (dropWhile isspace s)))"
    by (simp add: strip_def)
  then have "x \<in> set (rev (dropWhile isspace s))"
    by (rule set_dropWhileD)
  then have "x \<in> set (dropWhile isspace s)"
    by simp
  then show "x \<in> set s"
    by (rule set_dropWhileD)
qed

lemma length_strip_trailing_commas: "length (strip_trailing_commas s) \<le> length s"
  by (induction s) (auto simp: le_SucI)

lemma clean_Cons:
  assumes "strip_trailing_commas (c # cs) = c # cs"
  shows "\<not> (c = CHR '','' \<and> closes cs) \<and> strip_trailing_commas cs = cs"
proof (cases "c = CHR '','' \<and> closes cs")
  case True
  then have "length (strip_trailing_commas (c # cs)) \<le> length cs"
    by (simp add: length_strip_trailing_commas)
  then show ?thesis
    using assms by simp
next
  case False
  then show ?thesis
    using assms by auto
qed

lemma isspace_simps [simp]:
  "\<not> isspace (CHR ''}'')" "\<not> isspace (CHR '']'')" "\<not> isspace (CHR ''{'')" "\<not> isspace (CHR '','')"
  by (simp_all add: isspace_def)

lemma closes_blank: "list_all isspace w \<Longrightarrow> closes (w @ r) = closes r"
  by (simp add: closes_def dropWhile_append list_all_iff)

lemma closes_closer: "d = CHR ''}'' \<or> d = CHR '']'' \<Longrightarrow> closes (d # b)"
  by (auto simp: closes_def)

lemma closes_comma: "\<not> closes (CHR '','' # r)"
  by (simp add: closes_def)

lemma closes_front: "\<not> list_all isspace a \<Longrightarrow> closes (a @ r) = closes (a @ r')"
proof -
  assume "\<not> list_all isspace a"
  then have "dropWhile isspace a \<noteq> []" and "dropWhile isspace (a @ x) = dropWhile isspace a @ x" for x
    by (auto simp: dropWhile_append list_all_iff)
  then show ?thesis
    by (cases "dropWhile isspace a") (simp_all add: closes_def)
qed

lemma one_trailing_comma:
  assumes "list_all isspace w" and "d = CHR ''}'' \<or> d = CHR '']''"
    and "strip_trailing_commas (a @ w @ d # b) = a @ w @ d # b"
  shows "strip_trailing_commas (a @ CHR '','' # w @ d # b) = a @ w @ d # b"
  using assms(3)
proof (induction a)
  case Nil
  have "closes (w @ d # b)"
    using assms(1,2) by (simp add: closes_blank closes_closer)
  then show ?case
    using Nil by simp
next
  case (Cons x a)
  have clean: "\<not> (x = CHR '','' \<and> closes (a @ w @ d # b))"
    and rest: "strip_trailing_commas (a @ w @ d # b) = a @ w @ d # b"
    using clean_Cons [of x "a @ w @ d # b"] Cons.prems by simp_all
  have "\<not> (x = CHR '','' \<and> closes (a @ CHR '','' # w @ d # b))"
  proof (cases "list_all isspace a")
    case True
    then show ?thesis
      by (simp add: closes_blank closes_comma)
  next
    case False
    then show ?thesis
      using clean closes_front [OF False, of "CHR '','' # w @ d # b" "w @ d # b"] by simp
  qed
  then have "strip_trailing_commas ((x # a) @ CHR '','' # w @ d # b) =
      x # strip_trailing_commas (a @ CHR '','' # w @ d # b)"
    by simp
  then show ?case
    using Cons.IH [OF rest] by simp
qed

lemma parse_json_safely_direct:
  assumes "loads (strip (strip_fence s)) = Some v"
  shows "parse_json_safely loads s = Inr v"
  using assms by (simp add: parse_json_safely_def)

lemma parse_json_safely_span:
  assumes "loads (strip (strip_fence s)) = None"
    and "brace_span (strip (strip_fence s)) = Some j"
    and "loads j = Some v"
  shows "parse_json_safely loads s = Inr v"
  using assms by (simp add: parse_json_safely_def)

lemma parse_json_safely_fixed:
  assumes "loads (strip (strip_fence s)) = None"
    and "brace_span (strip (strip_fence s)) = Some j"
    and "loads j = None"
    and "loads (strip_trailing_commas j) = Some v"
  shows "parse_json_safely loads s = Inr v"
  using assms by (simp add: parse_json_safely_def)

lemma parse_json_safely_no_span:
  assumes "loads (strip (strip_fence s)) = None"
    and "brace_span (strip (strip_fence s)) = None"
  shows "parse_json_safely loads s = Inl JSONDecodeError"
  using assms by (simp add: parse_json_safely_def)

lemma span_in_prose:
  assumes "CHR ''{'' \<notin> set pre" and "CHR ''}'' \<notin> set post"
  shows "brace_span (strip (pre @ CHR ''{'' # m @ CHR ''}'' # post)) = Some (CHR ''{'' # m @ [CHR ''}''])"
proof -
  define j where "j = CHR ''{'' # m @ [CHR ''}'']"
  have j: "j \<noteq> []" "\<not> isspace (hd j)" "\<not> isspace (last j)"
    by (simp_all add: j_def)
  have whole: "pre @ CHR ''{'' # m @ CHR ''}'' # post = pre @ j @ post"
    by (simp add: j_def)
  have "CHR ''{'' \<notin> set (dropWhile isspace pre)"
    using assms(1) set_dropWhileD [of _ isspace pre] by blast
  moreover have "CHR ''}'' \<notin> set (rev (dropWhile isspace (rev post)))"
    using assms(2) set_dropWhileD [of _ isspace "rev post"] by auto
  ultimately have "brace_span (dropWhile isspace pre @ CHR ''{'' # m @ CHR ''}'' #
      rev (dropWhile isspace (rev post))) = Some (CHR ''{'' # m @ [CHR ''}''])"
    by (rule brace_span_between)
  then show ?thesis
    unfolding whole strip_between [OF j] by (simp add: j_def)
qed




end
